theory Spec2Isabelle
  imports Main "HOL-Library.Sublist"
begin

section \<open>JSON-derived values and Python's operations on them\<close>

text \<open>
  \<^verbatim>\<open>json.load\<close> yields nested Python values: \<^verbatim>\<open>str\<close>, \<^verbatim>\<open>int\<close>, \<^verbatim>\<open>bool\<close>,
  \<^verbatim>\<open>None\<close>, \<^verbatim>\<open>list\<close> and \<^verbatim>\<open>dict\<close> (keys are always \<^verbatim>\<open>str\<close>, kept in file order).
  A dict is an association list in stored key order. Text is a \<^typ>\<open>string\<close>; numbers
  are the integers (the \<^verbatim>\<open>level\<close> field of the data set); JSON floats are not modelled.
\<close>

datatype json =
    JStr string
  | JNum int
  | JBool bool
  | JNull
  | JList "json list"
  | JDict "(string \<times> json) list"

text \<open>The exceptions the modelled code can raise.\<close>

datatype py_error = KeyError | IndexError | TypeError | AttributeError | ValueError

definition bindE :: "py_error + 'a \<Rightarrow> ('a \<Rightarrow> py_error + 'b) \<Rightarrow> py_error + 'b" where
  "bindE m f = (case m of Inl e \<Rightarrow> Inl e | Inr v \<Rightarrow> f v)"

text \<open>\<^verbatim>\<open>'\n\n'\<close>, the separator \<^verbatim>\<open>collapse\<close> puts in front of every sub-item.\<close>

definition para_sep :: string where
  "para_sep = [CHR 0x0A, CHR 0x0A]"

text \<open>
  \<^verbatim>\<open>
  def collapse(item) -> str:
      result = ''
      if isinstance(item, str):
          return item
      elif isinstance(item, list):
          for subitem in item:
              result += '\n\n' + collapse(subitem)
          return result
      elif isinstance(item, dict):
          for subitem in item.values():
              result += '\n\n' + collapse(subitem)
          return result
      else:
          return ''
  \<close>
\<close>

fun collapse :: "json \<Rightarrow> string" where
  "collapse (JStr s) = s"
| "collapse (JList items) =
     foldl (\<lambda>result subitem. result @ para_sep @ collapse subitem) [] items"
| "collapse (JDict kvs) =
     foldl (\<lambda>result subitem. result @ para_sep @ collapse subitem) [] (map snd kvs)"
| "collapse _ = []"


subsection \<open>Strings\<close>

text \<open>
  \<^verbatim>\<open>str.lower()\<close>, on the ASCII letters: \<^verbatim>\<open>A\<close>..\<^verbatim>\<open>Z\<close> go to \<^verbatim>\<open>a\<close>..\<^verbatim>\<open>z\<close>, every other
  character stays. (Python also folds letters beyond ASCII; such text is outside
  the model.)
\<close>

definition lower_char :: "char \<Rightarrow> char" where
  "lower_char c =
     (let n = (of_char c :: nat) in if 65 \<le> n \<and> n \<le> 90 then char_of (n + 32) else c)"

definition lower :: "string \<Rightarrow> string" where
  "lower s = map lower_char s"

text \<open>\<^verbatim>\<open>a in b\<close> for two strings: \<open>a\<close> occurs in \<open>b\<close> as a contiguous piece.\<close>

definition str_in :: "string \<Rightarrow> string \<Rightarrow> bool" where
  "str_in a b = sublist a b"

text \<open>\<^verbatim>\<open>sep.join(parts)\<close>.\<close>

fun join :: "string \<Rightarrow> string list \<Rightarrow> string" where
  "join sep [] = []"
| "join sep [p] = p"
| "join sep (p # q # ps) = p @ sep @ join sep (q # ps)"

text \<open>\<^verbatim>\<open>str.split()\<close> with no argument: the maximal runs of non-whitespace.\<close>

definition is_space :: "char \<Rightarrow> bool" where
  "is_space c = ((of_char c :: nat) \<in> {9, 10, 11, 12, 13, 28, 29, 30, 31, 32})"

fun split_acc :: "string \<Rightarrow> string \<Rightarrow> string list" where
  "split_acc cur [] = (if cur = [] then [] else [cur])"
| "split_acc cur (c # cs) =
     (if is_space c then (if cur = [] then split_acc [] cs else cur # split_acc [] cs)
      else split_acc (cur @ [c]) cs)"

definition split :: "string \<Rightarrow> string list" where
  "split s = split_acc [] s"

subsection \<open>Subscripts, membership and arithmetic on JSON values\<close>

text \<open>
  \<^verbatim>\<open>obj[key]\<close> with a \<^verbatim>\<open>str\<close> key. Only a dict answers; a missing key raises
  \<^verbatim>\<open>KeyError\<close>, and a list, a string or a scalar raises \<^verbatim>\<open>TypeError\<close>.
\<close>

fun py_getitem :: "json \<Rightarrow> string \<Rightarrow> py_error + json" where
  "py_getitem (JDict kvs) k = (case map_of kvs k of None \<Rightarrow> Inl KeyError | Some v \<Rightarrow> Inr v)"
| "py_getitem _ k = Inl TypeError"

text \<open>
  \<^verbatim>\<open>key in obj\<close> with a \<^verbatim>\<open>str\<close> key: key membership for a dict, element membership
  for a list, substring for a string, \<^verbatim>\<open>TypeError\<close> for a scalar.
\<close>

fun py_in :: "string \<Rightarrow> json \<Rightarrow> py_error + bool" where
  "py_in k (JDict kvs) = Inr (k \<in> set (map fst kvs))"
| "py_in k (JList items) = Inr (JStr k \<in> set items)"
| "py_in k (JStr s) = Inr (str_in k s)"
| "py_in k _ = Inl TypeError"

text \<open>The value of an \<^verbatim>\<open>int\<close> or a \<^verbatim>\<open>bool\<close> (a subclass of \<^verbatim>\<open>int\<close>) in arithmetic.\<close>

fun py_int :: "json \<Rightarrow> int option" where
  "py_int (JNum n) = Some n"
| "py_int (JBool b) = Some (if b then 1 else 0)"
| "py_int _ = None"

text \<open>\<^verbatim>\<open>v - n\<close>.\<close>

definition py_sub :: "json \<Rightarrow> int \<Rightarrow> py_error + int" where
  "py_sub v n = (case py_int v of None \<Rightarrow> Inl TypeError | Some m \<Rightarrow> Inr (m - n))"

text \<open>\<^verbatim>\<open>xs[i]\<close> on a tuple or list: a negative index counts from the end.\<close>

definition py_index :: "'a list \<Rightarrow> int \<Rightarrow> py_error + 'a" where
  "py_index xs i =
     (if 0 \<le> i \<and> i < int (length xs) then Inr (xs ! nat i)
      else if i < 0 \<and> - int (length xs) \<le> i then Inr (xs ! nat (int (length xs) + i))
      else Inl IndexError)"

text \<open>\<^verbatim>\<open>v + s\<close> with \<open>s\<close> a string: only a string can be concatenated.\<close>

fun py_add_str :: "json \<Rightarrow> string \<Rightarrow> py_error + string" where
  "py_add_str (JStr t) s = Inr (t @ s)"
| "py_add_str _ s = Inl TypeError"

text \<open>\<^verbatim>\<open>v.lower()\<close>: only a string has the method.\<close>

fun py_lower :: "json \<Rightarrow> py_error + string" where
  "py_lower (JStr s) = Inr (lower s)"
| "py_lower _ = Inl AttributeError"

text \<open>
  The strings \<^verbatim>\<open>sep.join(v)\<close> iterates over: the elements of a list (each must be a
  string), the characters of a string, the keys of a dict.
\<close>

fun strs_of :: "json list \<Rightarrow> py_error + string list" where
  "strs_of [] = Inr []"
| "strs_of (JStr s # rest) = bindE (strs_of rest) (\<lambda>ss. Inr (s # ss))"
| "strs_of (_ # rest) = Inl TypeError"

fun py_join :: "string \<Rightarrow> json \<Rightarrow> py_error + string" where
  "py_join sep (JList items) = bindE (strs_of items) (\<lambda>ss. Inr (join sep ss))"
| "py_join sep (JStr s) = Inr (join sep (map (\<lambda>c. [c]) s))"
| "py_join sep (JDict kvs) = Inr (join sep (map fst kvs))"
| "py_join sep _ = Inl TypeError"

section \<open>The result formatter\<close>

text \<open>
  \<^verbatim>\<open>
  def list_to_paragraphs(items: list) -> str:
      text = items[0]
      if len(items) > 1:
          for para in items[1:]:
              text += '\n<U+2001>' + para  # EM QUAD space for indent
      return text
  \<close>
  The indent marker is a newline and U+2001 (three bytes in UTF-8).
  \<^verbatim>\<open>text += s\<close> appends to a string, extends a list by the characters of \<open>s\<close>,
  and raises \<^verbatim>\<open>TypeError\<close> on anything else. (When \<open>text\<close> is a list, Python grows
  the list stored in the record itself; that change of the table is not tracked here.)
\<close>

definition indent :: string where
  "indent = [CHR 0x0A, CHR 0xE2, CHR 0x80, CHR 0x81]"

fun py_iadd_str :: "json \<Rightarrow> string \<Rightarrow> py_error + json" where
  "py_iadd_str (JStr t) s = Inr (JStr (t @ s))"
| "py_iadd_str (JList xs) s = Inr (JList (xs @ map (\<lambda>c. JStr [c]) s))"
| "py_iadd_str _ s = Inl TypeError"

fun add_paras :: "json \<Rightarrow> json list \<Rightarrow> py_error + json" where
  "add_paras text [] = Inr text"
| "add_paras text (JStr para # rest) =
     (case py_iadd_str text (indent @ para) of
        Inl e \<Rightarrow> Inl e
      | Inr text' \<Rightarrow> add_paras text' rest)"
| "add_paras text (_ # rest) = Inl TypeError"

fun list_to_paragraphs :: "json \<Rightarrow> py_error + json" where
  "list_to_paragraphs (JList items) =
     (case items of
        [] \<Rightarrow> Inl IndexError
      | text # _ \<Rightarrow> if length items > 1 then add_paras text (tl items) else Inr text)"
| "list_to_paragraphs (JStr s) =
     (case s of
        [] \<Rightarrow> Inl IndexError
      | c # _ \<Rightarrow>
          if length s > 1 then add_paras (JStr [c]) (map (\<lambda>d. JStr [d]) (tl s))
          else Inr (JStr [c]))"
| "list_to_paragraphs (JDict kvs) = Inl KeyError"
| "list_to_paragraphs _ = Inl TypeError"

text \<open>
  \<^verbatim>\<open>
  NUM_ABBREVS = ('1st', '2nd', '3rd', '4th', '5th', '6th', '7th', '8th', '9th')
  SpellInfo = namedtuple('SpellInfo',
      'name subhead casting_time casting_range components duration description higher_levels page')
  \<close>
  The fields the formatter copies unchanged hold whatever JSON value the record has.
\<close>

definition NUM_ABBREVS :: "string list" where
  "NUM_ABBREVS = [''1st'', ''2nd'', ''3rd'', ''4th'', ''5th'', ''6th'', ''7th'', ''8th'', ''9th'']"

record SpellInfo =
  name :: json
  subhead :: string
  casting_time :: json
  casting_range :: json
  components :: string
  duration :: json
  description :: json
  higher_levels :: "json option"
  page :: string

text \<open>
  Lines 57--65 of \<^verbatim>\<open>get_spell_info\<close>, the subhead:
  \<^verbatim>\<open>
      if spell['level'] == 0:
          subhead = spell['school']['name'] + ' cantrip'
      else:
          subhead = NUM_ABBREVS[spell['level'] - 1] + '-level '
          subhead += spell['school']['name'].lower()
          if spell['ritual'] == 'yes':
              subhead += ' (ritual)'
  \<close>
\<close>

definition spell_subhead :: "json \<Rightarrow> py_error + string" where
  "spell_subhead spell =
     bindE (py_getitem spell ''level'') (\<lambda>level.
       if py_int level = Some 0 then
         bindE (py_getitem spell ''school'') (\<lambda>school.
         bindE (py_getitem school ''name'') (\<lambda>school_name.
           py_add_str school_name '' cantrip''))
       else
         bindE (py_sub level 1) (\<lambda>i.
         bindE (py_index NUM_ABBREVS i) (\<lambda>abbrev.
         bindE (py_getitem spell ''school'') (\<lambda>school.
         bindE (py_getitem school ''name'') (\<lambda>school_name.
         bindE (py_lower school_name) (\<lambda>lowered.
         bindE (py_getitem spell ''ritual'') (\<lambda>ritual.
           Inr (if ritual = JStr ''yes''
                then abbrev @ ''-level '' @ lowered @ '' (ritual)''
                else abbrev @ ''-level '' @ lowered))))))))"

text \<open>
  Lines 68--70, the components:
  \<^verbatim>\<open>
      components = ', '.join(spell['components'])
      if 'M' in components:
          components += ' (' + spell['material'] + ')'
  \<close>
\<close>

definition spell_components :: "json \<Rightarrow> py_error + string" where
  "spell_components spell =
     bindE (py_getitem spell ''components'') (\<lambda>comps.
     bindE (py_join '', '' comps) (\<lambda>joined.
       if str_in ''M'' joined then
         bindE (py_getitem spell ''material'') (\<lambda>material.
         bindE (py_add_str material '')'') (\<lambda>tail.
           Inr (joined @ '' ('' @ tail)))
       else Inr joined))"

text \<open>
  Line 77, \<^verbatim>\<open>page = spell['page'].split()[-1]\<close>.
\<close>

definition spell_page :: "json \<Rightarrow> py_error + string" where
  "spell_page spell =
     bindE (py_getitem spell ''page'') (\<lambda>p.
       case p of
         JStr s \<Rightarrow> py_index (split s) (- 1)
       | _ \<Rightarrow> Inl AttributeError)"

text \<open>
  \<^verbatim>\<open>
  def get_spell_info(spell: dict) -> SpellInfo:
      name = spell['name']
      ... subhead ...
      casting_time = spell['casting_time']
      casting_range = spell['range']
      ... components ...
      duration = spell['duration']
      description = list_to_paragraphs(spell['desc'])
      if 'higher_level' in spell:
          higher_levels = list_to_paragraphs(spell['higher_level'])
      else:
          higher_levels = None
      ... page ...
      return SpellInfo(name, subhead, casting_time, casting_range, components, duration,
                       description, higher_levels, page)
  \<close>
\<close>

definition get_spell_info :: "json \<Rightarrow> py_error + SpellInfo" where
  "get_spell_info spell =
     bindE (py_getitem spell ''name'') (\<lambda>nm.
     bindE (spell_subhead spell) (\<lambda>sh.
     bindE (py_getitem spell ''casting_time'') (\<lambda>ct.
     bindE (py_getitem spell ''range'') (\<lambda>cr.
     bindE (spell_components spell) (\<lambda>co.
     bindE (py_getitem spell ''duration'') (\<lambda>du.
     bindE (py_getitem spell ''desc'') (\<lambda>desc.
     bindE (list_to_paragraphs desc) (\<lambda>de.
     bindE (py_in ''higher_level'' spell) (\<lambda>has_higher.
     bindE (if has_higher
            then bindE (py_getitem spell ''higher_level'') (\<lambda>hl.
                 bindE (list_to_paragraphs hl) (\<lambda>h. Inr (Some h)))
            else Inr None) (\<lambda>hi.
     bindE (spell_page spell) (\<lambda>pg.
       Inr \<lparr>name = nm, subhead = sh, casting_time = ct, casting_range = cr,
            components = co, duration = du, description = de,
            higher_levels = hi, page = pg\<rparr>)))))))))))"

section \<open>The search engine\<close>

text \<open>
  The loaded data, \<^verbatim>\<open>self.raw\<close>: resource name to the parsed file, an ordered
  sequence of raw records. \<^verbatim>\<open>search\<close> returns the bare list \<^verbatim>\<open>[]\<close> on one path
  and the tuple \<^verbatim>\<open>(results, truncated)\<close> on the other; the two are different
  Python values.
\<close>

type_synonym srd_raw = "string \<rightharpoonup> json list"

datatype search_result =
    Bare "SpellInfo list"
  | Pair "SpellInfo list" bool

text \<open>
  The scan, lines 120--132:
  \<^verbatim>\<open>
      results, truncated = [], False
      for item in target:
          search_text = collapse(item[attr]).lower()
          if request in search_text:
              results.append(get_spell_info(item))
              if trunc and len(results) > trunc:
                  truncated = True
                  break
      return results, truncated
  \<close>
\<close>

fun search_loop ::
  "string \<Rightarrow> string \<Rightarrow> int \<Rightarrow> json list \<Rightarrow> SpellInfo list \<Rightarrow> py_error + search_result" where
  "search_loop attr request trunc [] results = Inr (Pair results False)"
| "search_loop attr request trunc (item # rest) results =
     (case py_getitem item attr of
        Inl e \<Rightarrow> Inl e
      | Inr v \<Rightarrow>
          if str_in request (lower (collapse v)) then
            (case get_spell_info item of
               Inl e \<Rightarrow> Inl e
             | Inr info \<Rightarrow>
                 if trunc \<noteq> 0 \<and> int (length (results @ [info])) > trunc
                 then Inr (Pair (results @ [info]) True)
                 else search_loop attr request trunc rest (results @ [info]))
          else search_loop attr request trunc rest results)"

text \<open>
  Lines 110--118:
  \<^verbatim>\<open>
      try:
          target = self.raw[resource]
      except ValueError:
          return []
      if attr not in target[0]:
          return []
  \<close>
  A missing key of \<^verbatim>\<open>self.raw\<close> raises \<^verbatim>\<open>KeyError\<close>; the handler is for
  \<^verbatim>\<open>ValueError\<close>. The calls of the logger and of the clock have no part in the
  result and are left out, and so is the \<^verbatim>\<open>lru_cache\<close> decorator: the table is not
  changed after loading, so a repeated call gets the value the first call computed.
  The default \<^verbatim>\<open>trunc = 5\<close> is passed explicitly.
\<close>

definition raw_lookup :: "srd_raw \<Rightarrow> string \<Rightarrow> py_error + json list" where
  "raw_lookup raw resource = (case raw resource of None \<Rightarrow> Inl KeyError | Some t \<Rightarrow> Inr t)"

definition search :: "srd_raw \<Rightarrow> string \<Rightarrow> string \<Rightarrow> string \<Rightarrow> int \<Rightarrow> py_error + search_result" where
  "search raw resource attr request trunc =
     (case raw_lookup raw resource of
        Inl e \<Rightarrow> if e = ValueError then Inr (Bare []) else Inl e
      | Inr target \<Rightarrow>
          bindE (py_index target 0) (\<lambda>first.
          bindE (py_in attr first) (\<lambda>present.
            if \<not> present then Inr (Bare [])
            else search_loop attr request trunc target [])))"

section \<open>The disambiguator\<close>

text \<open>
  Lines 39--50 of \<^verbatim>\<open>SRDCog.spell_command\<close> (the same lines serve every other
  command of the cog), from the matches the search gave to the record shown:
  \<^verbatim>\<open>
      if len(matches) == 0:
          return await ctx.send(f'Couldn\'t find any spells that match \'{request}\'.')
      spell_names = [match.name for match in matches]
      spell_names_lower = [match.name.lower() for match in matches]
      if len(matches) > 1 and request.lower() not in spell_names_lower:
          return await ctx.send(f'Could be: **{" - ".join(spell_names)}**.')
      if request.lower() not in spell_names_lower:
          spell = matches[0]
      else:
          spell = matches[spell_names_lower.index(request.lower())]
  \<close>
  The two early returns and the selected record are the three outcomes. The lines
  before them join the words of the request, refuse a request of at most two
  characters and call the search.
\<close>

datatype outcome =
    NotFound
  | Ambiguous "string list"
  | Resolved SpellInfo

text \<open>\<^verbatim>\<open>[n.lower() for n in names]\<close> and \<^verbatim>\<open>xs.index(x)\<close>.\<close>

fun map_lower :: "json list \<Rightarrow> py_error + string list" where
  "map_lower [] = Inr []"
| "map_lower (n # ns) =
     bindE (py_lower n) (\<lambda>l. bindE (map_lower ns) (\<lambda>ls. Inr (l # ls)))"

fun list_index :: "'a list \<Rightarrow> 'a \<Rightarrow> py_error + nat" where
  "list_index [] x = Inl ValueError"
| "list_index (y # ys) x =
     (if y = x then Inr 0 else bindE (list_index ys x) (\<lambda>i. Inr (Suc i)))"

text \<open>The text of the second early return, built from the names it carries.\<close>

definition could_be :: "string list \<Rightarrow> string" where
  "could_be names = ''Could be: **'' @ join '' - '' names @ ''**.''"

definition disambiguate :: "string \<Rightarrow> SpellInfo list \<Rightarrow> py_error + outcome" where
  "disambiguate request matches =
     (if length matches = 0 then Inr NotFound
      else
        let spell_names = map name matches in
        bindE (map_lower spell_names) (\<lambda>spell_names_lower.
          if length matches > 1 \<and> lower request \<notin> set spell_names_lower then
            bindE (strs_of spell_names) (\<lambda>names. Inr (Ambiguous names))
          else if lower request \<notin> set spell_names_lower then
            bindE (py_index matches 0) (\<lambda>spell. Inr (Resolved spell))
          else
            bindE (list_index spell_names_lower (lower request)) (\<lambda>i.
            bindE (py_index matches (int i)) (\<lambda>spell. Inr (Resolved spell)))))"

section \<open>Notions the properties are stated with\<close>

text \<open>
  The test the scan applies to a record (lines 122--123): the request, as it was
  passed, occurs in the lower-cased collapsed text of the record's attribute.
\<close>

definition matches_item :: "string \<Rightarrow> string \<Rightarrow> json \<Rightarrow> bool" where
  "matches_item attr request item =
     (case py_getitem item attr of
        Inl e \<Rightarrow> False
      | Inr v \<Rightarrow> str_in request (lower (collapse v)))"


text \<open>
  A table the scan runs through without an exception: every record carries the
  attribute and every record that matches is one the formatter accepts.
\<close>

definition scannable :: "string \<Rightarrow> string \<Rightarrow> json list \<Rightarrow> bool" where
  "scannable attr request target =
     list_all (\<lambda>item. (case py_getitem item attr of Inl e \<Rightarrow> False | Inr v \<Rightarrow> True) \<and>
                      (matches_item attr request item \<longrightarrow>
                         (case get_spell_info item of Inl e \<Rightarrow> False | Inr info \<Rightarrow> True)))
              target"

text \<open>
  The string leaves of a nested value in traversal order: lists by index, mappings
  in stored key order.
\<close>

fun leaves :: "json \<Rightarrow> string list" where
  "leaves (JStr s) = [s]"
| "leaves (JList items) = concat (map leaves items)"
| "leaves (JDict kvs) = concat (map (\<lambda>kv. leaves (snd kv)) kvs)"
| "leaves _ = []"

text \<open>
  A text laid out as a sequence of pieces, each a separator or a leaf; \<open>separated\<close>
  says that no two leaves stand next to each other.
\<close>

datatype piece = Sep | Leaf string

fun render :: "piece list \<Rightarrow> string" where
  "render [] = []"
| "render (Sep # ps) = para_sep @ render ps"
| "render (Leaf s # ps) = s @ render ps"

fun leaf_texts :: "piece list \<Rightarrow> string list" where
  "leaf_texts [] = []"
| "leaf_texts (Sep # ps) = leaf_texts ps"
| "leaf_texts (Leaf s # ps) = s # leaf_texts ps"

fun separated :: "piece list \<Rightarrow> bool" where
  "separated (Leaf a # Leaf b # ps) = False"
| "separated (p # ps) = separated ps"
| "separated [] = True"

text \<open>The fields \<^verbatim>\<open>get_spell_info\<close> reads on every path.\<close>

definition required_fields :: "string list" where
  "required_fields =
     [''name'', ''level'', ''school'', ''casting_time'', ''range'', ''components'',
      ''duration'', ''desc'', ''page'']"

text \<open>
  A record lacks a field when the subscript with that key does not give a value; a
  record is no spell record when it lacks one of the fields the formatter always
  reads.
\<close>

definition lacks :: "json \<Rightarrow> string \<Rightarrow> bool" where
  "lacks item k = (case py_getitem item k of Inl e \<Rightarrow> True | Inr v \<Rightarrow> False)"

definition non_spell :: "json \<Rightarrow> bool" where
  "non_spell item = list_ex (lacks item) required_fields"

text \<open>
  \<^verbatim>\<open>KeyError\<close> and \<^verbatim>\<open>IndexError\<close> are the subclasses of Python's \<^verbatim>\<open>LookupError\<close>.
\<close>

definition lookup_error :: "py_error \<Rightarrow> bool" where
  "lookup_error e = (e = KeyError \<or> e = IndexError)"

text \<open>
  Records on which the first thing to fail in the formatter is a lookup: a dict
  without \<^verbatim>\<open>name\<close>, or without \<^verbatim>\<open>level\<close>, or with a numeric \<^verbatim>\<open>level\<close> and without
  \<^verbatim>\<open>school\<close>.
\<close>

definition early_missing :: "json \<Rightarrow> bool" where
  "early_missing item =
     (case item of
        JDict kvs \<Rightarrow>
          map_of kvs ''name'' = None \<or>
          (case map_of kvs ''level'' of
             None \<Rightarrow> True
           | Some lv \<Rightarrow> py_int lv \<noteq> None \<and> map_of kvs ''school'' = None)
      | _ \<Rightarrow> False)"

text \<open>
  With \<open>have\<close> results collected and a nonzero \<open>trunc\<close>, the scan breaks at
  the first further match that makes the count exceed \<open>trunc\<close>.
\<close>

definition stop_after :: "int \<Rightarrow> nat \<Rightarrow> nat" where
  "stop_after trunc have = nat (max 1 (trunc + 1 - int have))"

section \<open>Sample data\<close>

definition sample_spell :: "string \<Rightarrow> json \<Rightarrow> string \<Rightarrow> string \<Rightarrow> json" where
  "sample_spell n lvl school ritual = JDict
     [(''name'', JStr n),
      (''level'', lvl),
      (''school'', JDict [(''name'', JStr school)]),
      (''ritual'', JStr ritual),
      (''casting_time'', JStr ''1 action''),
      (''range'', JStr ''150 feet''),
      (''components'', JList [JStr ''V'', JStr ''S'']),
      (''duration'', JStr ''Instantaneous''),
      (''desc'', JList [JStr ''A bright streak.'']),
      (''page'', JStr ''phb 241'')]"

definition spell_named :: "string \<Rightarrow> json" where
  "spell_named n = sample_spell n (JNum 3) ''Evocation'' ''no''"

definition fireball :: json where
  "fireball = spell_named ''Fireball''"

definition fireball_info :: SpellInfo where
  "fireball_info =
     \<lparr>name = JStr ''Fireball'', subhead = ''3rd-level evocation'',
      casting_time = JStr ''1 action'', casting_range = JStr ''150 feet'',
      components = ''V, S'', duration = JStr ''Instantaneous'',
      description = JStr ''A bright streak.'', higher_levels = None, page = ''241''\<rparr>"

definition info_named :: "string \<Rightarrow> SpellInfo" where
  "info_named n = fireball_info\<lparr>name := JStr n\<rparr>"

definition sample_raw :: srd_raw where
  "sample_raw = [''spells'' \<mapsto> [fireball]]"

definition heal_table :: "json list" where
  "heal_table =
     [spell_named ''Mass Heal'', spell_named ''Fireball'',
      spell_named ''Mass Healing Word'', spell_named ''Heal'']"

definition blinded :: json where
  "blinded = JDict [(''name'', JStr ''Blinded''), (''desc'', JList [JStr ''Cannot see.''])]"

definition conditions_raw :: srd_raw where
  "conditions_raw = [''conditions'' \<mapsto> [blinded]]"

definition odd_level :: json where
  "odd_level = JDict [(''name'', JStr ''Blinded''), (''level'', JStr ''none'')]"

definition odd_raw :: srd_raw where
  "odd_raw = [''conditions'' \<mapsto> [odd_level]]"

text \<open>
  A table whose third record has no \<^verbatim>\<open>name\<close>, and one whose third record matches
  \<^verbatim>\<open>heal\<close> by its name but is no spell.
\<close>

definition two_heals :: "json list" where
  "two_heals = [spell_named ''Mass Heal'', spell_named ''Mass Healing Word'']"



definition bare_table :: "json list" where
  "bare_table = two_heals @ [JDict [(''name'', JStr ''Heal'')]]"

definition bare_raw :: srd_raw where
  "bare_raw = [''spells'' \<mapsto> bare_table]"

definition heal_raw :: srd_raw where
  "heal_raw = [''spells'' \<mapsto> heal_table]"

section \<open>Unknown resource, unknown attribute\<close>

lemma search_resource_not_loaded:
  "raw resource = None \<Longrightarrow> search raw resource attr request trunc = Inl KeyError"
  by (simp add: search_def raw_lookup_def)

lemma search_attribute_not_on_first:
  assumes "raw resource = Some (first # rest)" and "py_in attr first = Inr False"
  shows "search raw resource attr request trunc = Inr (Bare [])"
  using assms by (simp add: search_def raw_lookup_def py_index_def bindE_def)

text \<open>
  C1. A resource name that is not loaded: the claim is that \<^verbatim>\<open>search\<close> returns
  \<^verbatim>\<open>([], False)\<close> and never raises. On the code the lookup raises \<^verbatim>\<open>KeyError\<close>, which
  the \<^verbatim>\<open>except ValueError\<close> clause does not catch: the search ends in that exception.
  Here for the resource \<^verbatim>\<open>monsters\<close> of a table that only holds \<^verbatim>\<open>spells\<close>.
\<close>

theorem search_unknown_resource_raises:
  "sample_raw ''monsters'' = None \<and>
   search sample_raw ''monsters'' ''name'' ''fireball'' 5 = Inl KeyError"
  by (simp add: sample_raw_def search_def raw_lookup_def)

text \<open>
  C5. An attribute that the first record of a loaded table does not have: the claim is
  that \<^verbatim>\<open>search\<close> returns the pair \<^verbatim>\<open>([], False)\<close>. The code returns without an error,
  but what it returns is the bare list \<^verbatim>\<open>[]\<close>, not a pair.
\<close>

theorem search_unknown_attribute_returns_bare_list:
  "py_in ''school_of_magic'' fireball = Inr False \<and>
   search sample_raw ''spells'' ''school_of_magic'' ''fireball'' 5 = Inr (Bare []) \<and>
   search sample_raw ''spells'' ''school_of_magic'' ''fireball'' 5 \<noteq> Inr (Pair [] False)"
proof -
  have absent: "py_in ''school_of_magic'' fireball = Inr False"
    by (simp add: fireball_def spell_named_def sample_spell_def)
  have loaded: "sample_raw ''spells'' = Some (fireball # [])"
    by (simp add: sample_raw_def)
  show ?thesis
    using absent
      search_attribute_not_on_first
        [where raw = sample_raw and resource = "''spells''", OF loaded absent]
    by simp
qed

section \<open>The scan\<close>

lemma scannable_Cons:
  "scannable attr request (item # rest) \<longleftrightarrow>
     (\<exists>v. py_getitem item attr = Inr v) \<and>
     (matches_item attr request item \<longrightarrow> (\<exists>info. get_spell_info item = Inr info)) \<and>
     scannable attr request rest"
  by (auto simp: scannable_def split: sum.splits)

lemma search_loop_spec:
  assumes "scannable attr request target"
  shows "\<exists>infos. map Inr infos = map get_spell_info (filter (matches_item attr request) target) \<and>
     search_loop attr request trunc target acc =
       (if trunc \<noteq> 0 \<and> stop_after trunc (length acc) \<le> length infos
        then Inr (Pair (acc @ take (stop_after trunc (length acc)) infos) True)
        else Inr (Pair (acc @ infos) False))"
  using assms
proof (induction target arbitrary: acc)
  case Nil
  then show ?case by (simp add: stop_after_def)
next
  case (Cons item rest)
  from Cons.prems obtain v where v: "py_getitem item attr = Inr v"
    and fmt: "matches_item attr request item \<longrightarrow> (\<exists>info. get_spell_info item = Inr info)"
    and rest: "scannable attr request rest"
    by (auto simp: scannable_Cons)
  show ?case
  proof (cases "matches_item attr request item")
    case False
    then have nm: "\<not> str_in request (lower (collapse v))"
      using v by (simp add: matches_item_def)
    from Cons.IH [OF rest, of acc] obtain infos where
      "map Inr infos = map get_spell_info (filter (matches_item attr request) rest)"
      "search_loop attr request trunc rest acc =
       (if trunc \<noteq> 0 \<and> stop_after trunc (length acc) \<le> length infos
        then Inr (Pair (acc @ take (stop_after trunc (length acc)) infos) True)
        else Inr (Pair (acc @ infos) False))" by blast
    then show ?thesis using False v nm by auto
  next
    case True
    then have m: "str_in request (lower (collapse v))"
      using v by (simp add: matches_item_def)
    from True fmt obtain info where info: "get_spell_info item = Inr info" by blast
    show ?thesis
    proof (cases "trunc \<noteq> 0 \<and> int (length (acc @ [info])) > trunc")
      case stop: True
      then have one: "stop_after trunc (length acc) = 1"
        by (simp add: stop_after_def)
      from Cons.IH [OF rest, of "acc @ [info]"] obtain infos where
        infos: "map Inr infos = map get_spell_info (filter (matches_item attr request) rest)"
        by blast
      have "map Inr (info # infos) =
          map get_spell_info (filter (matches_item attr request) (item # rest))"
        using infos True info by simp
      moreover have "search_loop attr request trunc (item # rest) acc =
          Inr (Pair (acc @ [info]) True)"
        using v m info stop by simp
      ultimately show ?thesis using one stop
        by (intro exI [of _ "info # infos"]) simp
    next
      case go: False
      from Cons.IH [OF rest, of "acc @ [info]"] obtain infos where
        infos: "map Inr infos = map get_spell_info (filter (matches_item attr request) rest)"
        and loop: "search_loop attr request trunc rest (acc @ [info]) =
       (if trunc \<noteq> 0 \<and> stop_after trunc (length (acc @ [info])) \<le> length infos
        then Inr (Pair ((acc @ [info]) @ take (stop_after trunc (length (acc @ [info]))) infos) True)
        else Inr (Pair ((acc @ [info]) @ infos) False))" by blast
      have step: "search_loop attr request trunc (item # rest) acc =
          search_loop attr request trunc rest (acc @ [info])"
        using v m info go by auto
      have *: "map Inr (info # infos) =
          map get_spell_info (filter (matches_item attr request) (item # rest))"
        using infos True info by simp
      have sa: "trunc \<noteq> 0 \<Longrightarrow>
          stop_after trunc (length acc) = Suc (stop_after trunc (length (acc @ [info])))"
        using go by (auto simp: stop_after_def)
      show ?thesis
        using * step loop sa
        by (intro exI [of _ "info # infos"]) auto
    qed
  qed
qed

lemma search_runs_scan:
  assumes "raw resource = Some (first # rest)" and "py_in attr first = Inr True"
  shows "search raw resource attr request trunc =
         search_loop attr request trunc (first # rest) []"
  using assms by (simp add: search_def raw_lookup_def py_index_def bindE_def)

lemma search_spec:
  assumes "raw resource = Some (first # rest)" and "py_in attr first = Inr True"
    and "scannable attr request (first # rest)"
  shows "\<exists>infos.
     map Inr infos = map get_spell_info (filter (matches_item attr request) (first # rest)) \<and>
     search raw resource attr request trunc =
       (if trunc \<noteq> 0 \<and> stop_after trunc 0 \<le> length infos
        then Inr (Pair (take (stop_after trunc 0) infos) True)
        else Inr (Pair infos False))"
proof -
  have run: "search raw resource attr request trunc =
      search_loop attr request trunc (first # rest) []"
    by (rule search_runs_scan [of raw resource, OF assms(1,2)])
  from search_loop_spec [OF assms(3), of trunc "[]"] obtain infos where
    infos: "map Inr infos =
      map get_spell_info (filter (matches_item attr request) (first # rest))"
    and loop: "search_loop attr request trunc (first # rest) [] =
       (if trunc \<noteq> 0 \<and> stop_after trunc (length ([] :: SpellInfo list)) \<le> length infos
        then Inr (Pair ([] @ take (stop_after trunc (length ([] :: SpellInfo list))) infos) True)
        else Inr (Pair ([] @ infos) False))"
    by blast
  have "search raw resource attr request trunc =
       (if trunc \<noteq> 0 \<and> stop_after trunc 0 \<le> length infos
        then Inr (Pair (take (stop_after trunc 0) infos) True)
        else Inr (Pair infos False))"
    unfolding run loop by simp
  with infos show ?thesis by blast
qed

lemma map_Inr_eq: "map Inr xs = map Inr ys \<Longrightarrow> xs = ys"
  by (simp add: inj_map_eq_map)

subsection \<open>The sample tables, evaluated\<close>

lemma heal_loaded: "heal_raw ''spells'' = Some (spell_named ''Mass Heal'' # tl heal_table)"
  by (simp add: heal_raw_def heal_table_def)

lemma heal_table_eq: "spell_named ''Mass Heal'' # tl heal_table = heal_table"
  by (simp add: heal_table_def)

lemma heal_probe: "py_in ''name'' (spell_named ''Mass Heal'') = Inr True"
  by (simp add: spell_named_def sample_spell_def)

lemma heal_scannable: "scannable ''name'' ''heal'' heal_table"
  by code_simp

lemma heal_matches:
  "map get_spell_info (filter (matches_item ''name'' ''heal'') heal_table) =
   map Inr [info_named ''Mass Heal'', info_named ''Mass Healing Word'', info_named ''Heal'']"
  by code_simp

lemma zzz_scannable: "scannable ''name'' ''zzz'' heal_table"
  by code_simp

lemma zzz_matches: "filter (matches_item ''name'' ''zzz'') heal_table = []"
  by code_simp


section \<open>Truncation\<close>

text \<open>
  C10. With \<^verbatim>\<open>trunc = 0\<close> nothing is cut: on a loaded table whose first record has
  the attribute and which the scan runs through, the result is the pair of all the
  matching records of the whole table, formatted, in table order, with the flag
  \<^verbatim>\<open>False\<close>, however many records match.
\<close>

theorem search_limit_zero_no_truncation:
  assumes loaded: "raw resource = Some (first # rest)"
    and probe: "py_in attr first = Inr True"
    and scan: "scannable attr request (first # rest)"
  shows "\<exists>infos.
     search raw resource attr request 0 = Inr (Pair infos False) \<and>
     map Inr infos = map get_spell_info (filter (matches_item attr request) (first # rest))"
  using search_spec [where raw = raw and resource = resource and trunc = 0, OF loaded probe scan]
  by auto

theorem search_limit_zero_no_truncation_witness:
  "search heal_raw ''spells'' ''name'' ''heal'' 0 =
     Inr (Pair [info_named ''Mass Heal'', info_named ''Mass Healing Word'', info_named ''Heal'']
            False)"
proof -
  have scan: "scannable ''name'' ''heal'' (spell_named ''Mass Heal'' # tl heal_table)"
    using heal_scannable by (simp add: heal_table_eq)
  from search_limit_zero_no_truncation
    [where raw = heal_raw and resource = "''spells''", OF heal_loaded heal_probe scan]
  obtain infos where
    res: "search heal_raw ''spells'' ''name'' ''heal'' 0 = Inr (Pair infos False)" and
    infos: "map Inr infos =
      map get_spell_info (filter (matches_item ''name'' ''heal'') (spell_named ''Mass Heal'' # tl heal_table))"
    by blast
  from infos have "infos =
      [info_named ''Mass Heal'', info_named ''Mass Healing Word'', info_named ''Heal'']"
    unfolding heal_table_eq heal_matches by (rule map_Inr_eq)
  with res show ?thesis by simp
qed

subsection \<open>A scan that need not read the whole table\<close>

lemma search_loop_prefix:
  assumes "scannable attr request pre"
  shows "\<exists>infos. map Inr infos = map get_spell_info (filter (matches_item attr request) pre) \<and>
     search_loop attr request trunc (pre @ post) acc =
       (if trunc \<noteq> 0 \<and> stop_after trunc (length acc) \<le> length infos
        then Inr (Pair (acc @ take (stop_after trunc (length acc)) infos) True)
        else search_loop attr request trunc post (acc @ infos))"
  using assms
proof (induction pre arbitrary: acc)
  case Nil
  show ?case by (intro exI [of _ "[]"]) (simp add: stop_after_def)
next
  case (Cons item rest)
  from Cons.prems obtain v where v: "py_getitem item attr = Inr v"
    and fmt: "matches_item attr request item \<longrightarrow> (\<exists>info. get_spell_info item = Inr info)"
    and rest: "scannable attr request rest"
    by (auto simp: scannable_Cons)
  show ?case
  proof (cases "matches_item attr request item")
    case False
    then have nm: "\<not> str_in request (lower (collapse v))"
      using v by (simp add: matches_item_def)
    from Cons.IH [OF rest, of acc] obtain infos where
      "map Inr infos = map get_spell_info (filter (matches_item attr request) rest)"
      "search_loop attr request trunc (rest @ post) acc =
       (if trunc \<noteq> 0 \<and> stop_after trunc (length acc) \<le> length infos
        then Inr (Pair (acc @ take (stop_after trunc (length acc)) infos) True)
        else search_loop attr request trunc post (acc @ infos))" by blast
    then show ?thesis using False v nm by auto
  next
    case True
    then have m: "str_in request (lower (collapse v))"
      using v by (simp add: matches_item_def)
    from True fmt obtain info where info: "get_spell_info item = Inr info" by blast
    from Cons.IH [OF rest, of "acc @ [info]"] obtain infos where
      infos: "map Inr infos = map get_spell_info (filter (matches_item attr request) rest)"
      and loop: "search_loop attr request trunc (rest @ post) (acc @ [info]) =
       (if trunc \<noteq> 0 \<and> stop_after trunc (length (acc @ [info])) \<le> length infos
        then Inr (Pair ((acc @ [info]) @ take (stop_after trunc (length (acc @ [info]))) infos) True)
        else search_loop attr request trunc post ((acc @ [info]) @ infos))" by blast
    have *: "map Inr (info # infos) =
        map get_spell_info (filter (matches_item attr request) (item # rest))"
      using infos True info by simp
    show ?thesis
    proof (cases "trunc \<noteq> 0 \<and> int (length (acc @ [info])) > trunc")
      case stop: True
      then have one: "stop_after trunc (length acc) = 1"
        by (simp add: stop_after_def)
      have "search_loop attr request trunc ((item # rest) @ post) acc =
          Inr (Pair (acc @ [info]) True)"
        using v m info stop by simp
      with * one stop show ?thesis
        by (intro exI [of _ "info # infos"]) simp
    next
      case go: False
      have step: "search_loop attr request trunc ((item # rest) @ post) acc =
          search_loop attr request trunc (rest @ post) (acc @ [info])"
        using v m info go by auto
      have sa: "trunc \<noteq> 0 \<Longrightarrow>
          stop_after trunc (length acc) = Suc (stop_after trunc (length (acc @ [info])))"
        using go by (auto simp: stop_after_def)
      show ?thesis
        using * step loop sa
        by (intro exI [of _ "info # infos"]) auto
    qed
  qed
qed

lemma search_prefix:
  assumes "raw resource = Some (first # rest)" and "py_in attr first = Inr True"
    and "first # rest = pre @ post" and "scannable attr request pre"
  shows "\<exists>infos.
     map Inr infos = map get_spell_info (filter (matches_item attr request) pre) \<and>
     search raw resource attr request trunc =
       (if trunc \<noteq> 0 \<and> stop_after trunc 0 \<le> length infos
        then Inr (Pair (take (stop_after trunc 0) infos) True)
        else search_loop attr request trunc post infos)"
proof -
  have run: "search raw resource attr request trunc =
      search_loop attr request trunc (pre @ post) []"
    using search_runs_scan [of raw resource, OF assms(1,2)] assms(3) by simp
  from search_loop_prefix [OF assms(4), of trunc post "[]"] obtain infos where
    infos: "map Inr infos = map get_spell_info (filter (matches_item attr request) pre)"
    and loop: "search_loop attr request trunc (pre @ post) [] =
       (if trunc \<noteq> 0 \<and> stop_after trunc (length ([] :: SpellInfo list)) \<le> length infos
        then Inr (Pair ([] @ take (stop_after trunc (length ([] :: SpellInfo list))) infos) True)
        else search_loop attr request trunc post ([] @ infos))"
    by blast
  have "search raw resource attr request trunc =
       (if trunc \<noteq> 0 \<and> stop_after trunc 0 \<le> length infos
        then Inr (Pair (take (stop_after trunc 0) infos) True)
        else search_loop attr request trunc post infos)"
    unfolding run loop by simp
  with infos show ?thesis by blast
qed

lemma formatted_take:
  assumes "map Inr infos = map get_spell_info (filter P pre)" and "k \<le> length infos"
  shows "map Inr (take k infos) = map get_spell_info (take k (filter P (pre @ post)))"
    and "length (take k infos) = k"
proof -
  from assms(1) have len: "length infos = length (filter P pre)" by (metis length_map)
  have "map Inr (take k infos) = take k (map get_spell_info (filter P pre))"
    using assms(1) by (simp add: take_map [symmetric])
  also have "\<dots> = map get_spell_info (take k (filter P pre))" by (simp add: take_map)
  also have "take k (filter P pre) = take k (filter P (pre @ post))"
    using assms(2) len by simp
  finally show "map Inr (take k infos) = map get_spell_info (take k (filter P (pre @ post)))" .
  show "length (take k infos) = k" using assms(2) by simp
qed

lemma search_breaks_in_prefix:
  assumes loaded: "raw resource = Some (first # rest)"
    and probe: "py_in attr first = Inr True"
    and split: "first # rest = pre @ post"
    and scan: "scannable attr request pre"
    and nonzero: "trunc \<noteq> 0"
    and enough: "stop_after trunc 0 \<le> length (filter (matches_item attr request) pre)"
  shows "\<exists>results. search raw resource attr request trunc = Inr (Pair results True) \<and>
     length results = stop_after trunc 0 \<and>
     map Inr results =
       map get_spell_info
         (take (stop_after trunc 0) (filter (matches_item attr request) (first # rest)))"
proof -
  from search_prefix [where raw = raw and resource = resource and trunc = trunc,
      OF loaded probe split scan] obtain infos where
    infos: "map Inr infos = map get_spell_info (filter (matches_item attr request) pre)"
    and res: "search raw resource attr request trunc =
       (if trunc \<noteq> 0 \<and> stop_after trunc 0 \<le> length infos
        then Inr (Pair (take (stop_after trunc 0) infos) True)
        else search_loop attr request trunc post infos)" by blast
  from infos have len: "length infos = length (filter (matches_item attr request) pre)"
    by (metis length_map)
  with enough have k: "stop_after trunc 0 \<le> length infos" by simp
  from res nonzero k have
    "search raw resource attr request trunc = Inr (Pair (take (stop_after trunc 0) infos) True)"
    by simp
  with formatted_take(1) [where post = post, OF infos k] formatted_take(2) [OF infos k] split
  show ?thesis by auto
qed

lemma search_reads_all:
  assumes loaded: "raw resource = Some (first # rest)"
    and probe: "py_in attr first = Inr True"
    and scan: "scannable attr request (first # rest)"
    and few: "trunc = 0 \<or>
       length (filter (matches_item attr request) (first # rest)) < stop_after trunc 0"
  shows "\<exists>results. search raw resource attr request trunc = Inr (Pair results False) \<and>
     map Inr results =
       map get_spell_info (filter (matches_item attr request) (first # rest))"
proof -
  from search_spec [where raw = raw and resource = resource and trunc = trunc,
      OF loaded probe scan] obtain infos where
    infos: "map Inr infos =
      map get_spell_info (filter (matches_item attr request) (first # rest))"
    and res: "search raw resource attr request trunc =
       (if trunc \<noteq> 0 \<and> stop_after trunc 0 \<le> length infos
        then Inr (Pair (take (stop_after trunc 0) infos) True)
        else Inr (Pair infos False))" by blast
  from infos have
    "length infos = length (filter (matches_item attr request) (first # rest))"
    by (metis length_map)
  with few res have "search raw resource attr request trunc = Inr (Pair infos False)"
    by auto
  with infos show ?thesis by blast
qed

lemma stop_after_cases:
  "0 < trunc \<Longrightarrow> stop_after trunc 0 = nat trunc + 1"
  "trunc < 0 \<Longrightarrow> stop_after trunc 0 = 1"
  by (simp_all add: stop_after_def)

text \<open>
  C3, with the number of matches at which the scan breaks. The table being
  \<open>pre @ post\<close>, its first record having the attribute, and the scan running through
  \<open>pre\<close> (nothing is asked of \<open>post\<close>): for a positive limit, when more than \<open>trunc\<close>
  records of \<open>pre\<close> match, the scan stops there, the result is the first
  \<open>trunc + 1\<close> matching records of the table in table order, exactly that many, with
  the flag \<^verbatim>\<open>True\<close>, and no later record is read; when the whole table is scanned and
  at most \<open>trunc\<close> records match, all of them are returned with the flag \<^verbatim>\<open>False\<close>.
  For a negative limit the scan stops at the first match: one result with the flag
  \<^verbatim>\<open>True\<close>, or, when the whole table is scanned and nothing matches, none and the
  flag \<^verbatim>\<open>False\<close>.
\<close>

theorem search_truncates_after_limit:
  assumes loaded: "raw resource = Some (first # rest)"
    and probe: "py_in attr first = Inr True"
    and split: "first # rest = pre @ post"
    and scan: "scannable attr request pre"
  shows
    "(0 < trunc \<and> trunc < int (length (filter (matches_item attr request) pre)) \<longrightarrow>
        (\<exists>results. search raw resource attr request trunc = Inr (Pair results True) \<and>
           length results = nat trunc + 1 \<and>
           map Inr results =
             map get_spell_info
               (take (nat trunc + 1) (filter (matches_item attr request) (first # rest))))) \<and>
     (0 < trunc \<and> post = [] \<and>
      int (length (filter (matches_item attr request) pre)) \<le> trunc \<longrightarrow>
        (\<exists>results. search raw resource attr request trunc = Inr (Pair results False) \<and>
           map Inr results =
             map get_spell_info (filter (matches_item attr request) (first # rest)))) \<and>
     (trunc < 0 \<and> filter (matches_item attr request) pre \<noteq> [] \<longrightarrow>
        (\<exists>results. search raw resource attr request trunc = Inr (Pair results True) \<and>
           length results = 1 \<and>
           map Inr results =
             map get_spell_info
               (take 1 (filter (matches_item attr request) (first # rest))))) \<and>
     (trunc < 0 \<and> post = [] \<and> filter (matches_item attr request) pre = [] \<longrightarrow>
        search raw resource attr request trunc = Inr (Pair [] False))"
proof (intro conjI impI)
  assume a: "0 < trunc \<and> trunc < int (length (filter (matches_item attr request) pre))"
  then have k: "stop_after trunc 0 = nat trunc + 1" by (simp add: stop_after_cases)
  from a have "trunc \<noteq> 0"
    and "stop_after trunc 0 \<le> length (filter (matches_item attr request) pre)"
    unfolding k by auto
  from search_breaks_in_prefix [where raw = raw and resource = resource,
      OF loaded probe split scan this]
  show "\<exists>results. search raw resource attr request trunc = Inr (Pair results True) \<and>
      length results = nat trunc + 1 \<and>
      map Inr results =
        map get_spell_info
          (take (nat trunc + 1) (filter (matches_item attr request) (first # rest)))"
    unfolding k .
next
  assume a: "0 < trunc \<and> post = [] \<and>
    int (length (filter (matches_item attr request) pre)) \<le> trunc"
  then have whole: "pre = first # rest" using split by simp
  from a have k: "stop_after trunc 0 = nat trunc + 1" by (simp add: stop_after_cases)
  have "trunc = 0 \<or>
      length (filter (matches_item attr request) (first # rest)) < stop_after trunc 0"
    using a unfolding k whole by auto
  from search_reads_all [where raw = raw and resource = resource,
      OF loaded probe scan [unfolded whole] this]
  show "\<exists>results. search raw resource attr request trunc = Inr (Pair results False) \<and>
      map Inr results =
        map get_spell_info (filter (matches_item attr request) (first # rest))" .
next
  assume a: "trunc < 0 \<and> filter (matches_item attr request) pre \<noteq> []"
  then have k: "stop_after trunc 0 = 1" by (simp add: stop_after_cases)
  from a have "trunc \<noteq> 0"
    and "stop_after trunc 0 \<le> length (filter (matches_item attr request) pre)"
    unfolding k by (auto simp: Suc_le_eq)
  from search_breaks_in_prefix [where raw = raw and resource = resource,
      OF loaded probe split scan this]
  show "\<exists>results. search raw resource attr request trunc = Inr (Pair results True) \<and>
      length results = 1 \<and>
      map Inr results =
        map get_spell_info
          (take 1 (filter (matches_item attr request) (first # rest)))"
    unfolding k .
next
  assume a: "trunc < 0 \<and> post = [] \<and> filter (matches_item attr request) pre = []"
  then have whole: "pre = first # rest" using split by simp
  from a have k: "stop_after trunc 0 = 1" by (simp add: stop_after_cases)
  have none: "filter (matches_item attr request) (first # rest) = []"
    using a unfolding whole by simp
  have "trunc = 0 \<or>
      length (filter (matches_item attr request) (first # rest)) < stop_after trunc 0"
    unfolding k none by simp
  from search_reads_all [where raw = raw and resource = resource,
      OF loaded probe scan [unfolded whole] this]
  show "search raw resource attr request trunc = Inr (Pair [] False)"
    unfolding none by auto
qed

lemma bare_loaded: "bare_raw ''spells'' = Some (spell_named ''Mass Heal'' # tl bare_table)"
  by (simp add: bare_raw_def bare_table_def two_heals_def)

lemma bare_split:
  "spell_named ''Mass Heal'' # tl bare_table = two_heals @ [JDict [(''name'', JStr ''Heal'')]]"
  by (simp add: bare_table_def two_heals_def)

lemma two_heals_facts:
  "scannable ''name'' ''heal'' two_heals"
  "length (filter (matches_item ''name'' ''heal'') two_heals) = 2"
  by code_simp+

lemma bare_facts:
  "\<not> scannable ''name'' ''heal'' bare_table"
  "map get_spell_info
     (take (nat 1 + 1)
        (filter (matches_item ''name'' ''heal'') (spell_named ''Mass Heal'' # tl bare_table))) =
   map Inr [info_named ''Mass Heal'', info_named ''Mass Healing Word'']"
  by code_simp+

lemma heal_facts:
  "length (filter (matches_item ''name'' ''heal'') heal_table) = 3"
  "map get_spell_info
     (take 1 (filter (matches_item ''name'' ''heal'')
        (spell_named ''Mass Heal'' # tl heal_table))) =
   map Inr [info_named ''Mass Heal'']"
  "map get_spell_info
     (filter (matches_item ''name'' ''heal'') (spell_named ''Mass Heal'' # tl heal_table)) =
   map Inr [info_named ''Mass Heal'', info_named ''Mass Healing Word'', info_named ''Heal'']"
  by code_simp+

theorem search_truncates_after_limit_witness:
  "search bare_raw ''spells'' ''name'' ''heal'' 1 =
     Inr (Pair [info_named ''Mass Heal'', info_named ''Mass Healing Word''] True) \<and>
   search heal_raw ''spells'' ''name'' ''heal'' 3 =
     Inr (Pair [info_named ''Mass Heal'', info_named ''Mass Healing Word'', info_named ''Heal'']
            False) \<and>
   search heal_raw ''spells'' ''name'' ''heal'' (- 1) =
     Inr (Pair [info_named ''Mass Heal''] True) \<and>
   search heal_raw ''spells'' ''name'' ''zzz'' (- 1) = Inr (Pair [] False)"
proof -
  have whole: "spell_named ''Mass Heal'' # tl heal_table = heal_table @ []"
    by (simp add: heal_table_eq)
  have a: "search bare_raw ''spells'' ''name'' ''heal'' 1 =
     Inr (Pair [info_named ''Mass Heal'', info_named ''Mass Healing Word''] True)"
  proof -
    have cnt: "(0::int) < 1 \<and>
        1 < int (length (filter (matches_item ''name'' ''heal'') two_heals))"
      by (simp add: two_heals_facts(2))
    from search_truncates_after_limit
      [where raw = bare_raw and resource = "''spells''" and trunc = 1,
       OF bare_loaded heal_probe bare_split two_heals_facts(1)] cnt
    obtain results where
      r: "search bare_raw ''spells'' ''name'' ''heal'' 1 = Inr (Pair results True)" and
      m: "map Inr results =
         map get_spell_info
           (take (nat 1 + 1)
              (filter (matches_item ''name'' ''heal'')
                 (spell_named ''Mass Heal'' # tl bare_table)))"
      by blast
    from m have "results = [info_named ''Mass Heal'', info_named ''Mass Healing Word'']"
      unfolding bare_facts(2) by (rule map_Inr_eq)
    with r show ?thesis by (simp only:)
  qed
  have b: "search heal_raw ''spells'' ''name'' ''heal'' 3 =
     Inr (Pair [info_named ''Mass Heal'', info_named ''Mass Healing Word'', info_named ''Heal'']
            False)"
  proof -
    have cnt: "(0::int) < 3 \<and> ([] :: json list) = [] \<and>
        int (length (filter (matches_item ''name'' ''heal'') heal_table)) \<le> 3"
      by (simp add: heal_facts(1))
    from search_truncates_after_limit
      [where raw = heal_raw and resource = "''spells''" and trunc = 3,
       OF heal_loaded heal_probe whole heal_scannable] cnt
    obtain results where
      r: "search heal_raw ''spells'' ''name'' ''heal'' 3 = Inr (Pair results False)" and
      m: "map Inr results =
         map get_spell_info (filter (matches_item ''name'' ''heal'')
           (spell_named ''Mass Heal'' # tl heal_table))"
      by blast
    from m have "results =
        [info_named ''Mass Heal'', info_named ''Mass Healing Word'', info_named ''Heal'']"
      unfolding heal_facts(3) by (rule map_Inr_eq)
    with r show ?thesis by (simp only:)
  qed
  have c: "search heal_raw ''spells'' ''name'' ''heal'' (- 1) =
     Inr (Pair [info_named ''Mass Heal''] True)"
  proof -
    have cnt: "(- 1 :: int) < 0 \<and> filter (matches_item ''name'' ''heal'') heal_table \<noteq> []"
      using heal_facts(1) by auto
    from search_truncates_after_limit
      [where raw = heal_raw and resource = "''spells''" and trunc = "- 1",
       OF heal_loaded heal_probe whole heal_scannable] cnt
    obtain results where
      r: "search heal_raw ''spells'' ''name'' ''heal'' (- 1) = Inr (Pair results True)" and
      m: "map Inr results =
         map get_spell_info (take 1 (filter (matches_item ''name'' ''heal'')
           (spell_named ''Mass Heal'' # tl heal_table)))"
      by blast
    from m have "results = [info_named ''Mass Heal'']"
      unfolding heal_facts(2) by (rule map_Inr_eq)
    with r show ?thesis by (simp only:)
  qed
  have d: "search heal_raw ''spells'' ''name'' ''zzz'' (- 1) = Inr (Pair [] False)"
  proof -
    have cnt: "(- 1 :: int) < 0 \<and> ([] :: json list) = [] \<and>
        filter (matches_item ''name'' ''zzz'') heal_table = []"
      by (simp add: zzz_matches)
    from search_truncates_after_limit
      [where raw = heal_raw and resource = "''spells''" and trunc = "- 1",
       OF heal_loaded heal_probe whole zzz_scannable] cnt
    show ?thesis by blast
  qed
  from a b c d show ?thesis by (intro conjI)
qed

text \<open>
  The claim C3 speaks of every nonzero limit. A negative limit is nonzero and every
  count of matches exceeds it, also the count 0; with no match the scan never reaches
  the test and the flag stays \<^verbatim>\<open>False\<close>.
\<close>

theorem search_negative_limit_counterexample:
  "(- 1 :: int) \<noteq> 0 \<and>
   - 1 < int (length (filter (matches_item ''name'' ''zzz'') heal_table)) \<and>
   search heal_raw ''spells'' ''name'' ''zzz'' (- 1) = Inr (Pair [] False)"
proof -
  have scan: "scannable ''name'' ''zzz'' (spell_named ''Mass Heal'' # tl heal_table)"
    using zzz_scannable by (simp add: heal_table_eq)
  from search_spec [where raw = heal_raw and resource = "''spells''" and trunc = "- 1",
      OF heal_loaded heal_probe scan]
  have "search heal_raw ''spells'' ''name'' ''zzz'' (- 1) = Inr (Pair [] False)"
    unfolding heal_table_eq zzz_matches by (auto simp: stop_after_def)
  then show ?thesis by (simp add: zzz_matches)
qed


section \<open>Which records match, and in what order\<close>

subsection \<open>Letter case\<close>
















section \<open>The subhead\<close>

lemma get_spell_info_subhead:
  "get_spell_info spell = Inr info \<Longrightarrow> spell_subhead spell = Inr (subhead info)"
  by (auto simp: get_spell_info_def bindE_def split: sum.splits if_splits)

text \<open>
  C6, for the levels the table \<open>NUM_ABBREVS\<close> covers. For a record whose level is the
  number \<open>N\<close> and whose school has the name \<open>sch\<close>: at level 0 the subhead is the
  school name as stored followed by \<^verbatim>\<open> cantrip\<close>; at a level from 1 to 9 it is the
  ordinal of \<open>N\<close>, \<^verbatim>\<open>-level \<close>, the lower-cased school name, and \<^verbatim>\<open> (ritual)\<close>
  exactly when the \<^verbatim>\<open>ritual\<close> field is the string \<^verbatim>\<open>yes\<close>. The subhead of the record
  \<^verbatim>\<open>get_spell_info\<close> returns is that string.
\<close>

theorem subhead_by_level:
  assumes level: "py_getitem spell ''level'' = Inr (JNum N)"
    and school: "py_getitem spell ''school'' = Inr school"
    and sname: "py_getitem school ''name'' = Inr (JStr sch)"
  shows "(N = 0 \<longrightarrow> spell_subhead spell = Inr (sch @ '' cantrip'')) \<and>
     (1 \<le> N \<and> N \<le> 9 \<longrightarrow>
        (\<forall>r. py_getitem spell ''ritual'' = Inr r \<longrightarrow>
           spell_subhead spell =
             Inr (NUM_ABBREVS ! nat (N - 1) @ ''-level '' @ lower sch @
                  (if r = JStr ''yes'' then '' (ritual)'' else [])))) \<and>
     (\<forall>info. get_spell_info spell = Inr info \<longrightarrow> spell_subhead spell = Inr (subhead info))"
proof (intro conjI impI allI)
  assume "N = 0"
  then show "spell_subhead spell = Inr (sch @ '' cantrip'')"
    using level school sname by (simp add: spell_subhead_def bindE_def)
next
  fix r
  assume range: "1 \<le> N \<and> N \<le> 9" and ritual: "py_getitem spell ''ritual'' = Inr r"
  have len: "length NUM_ABBREVS = 9" by (simp add: NUM_ABBREVS_def)
  have idx: "py_index NUM_ABBREVS (N - 1) = Inr (NUM_ABBREVS ! nat (N - 1))"
    using range len by (simp add: py_index_def)
  show "spell_subhead spell =
      Inr (NUM_ABBREVS ! nat (N - 1) @ ''-level '' @ lower sch @
           (if r = JStr ''yes'' then '' (ritual)'' else []))"
    using level school sname ritual range idx
    by (simp add: spell_subhead_def bindE_def py_sub_def)
next
  fix info
  assume "get_spell_info spell = Inr info"
  then show "spell_subhead spell = Inr (subhead info)"
    by (rule get_spell_info_subhead)
qed

lemma sample_spell_fields:
  "py_getitem (sample_spell n lvl sch ritual) ''level'' = Inr lvl"
  "py_getitem (sample_spell n lvl sch ritual) ''school'' = Inr (JDict [(''name'', JStr sch)])"
  "py_getitem (JDict [(''name'', JStr sch)]) ''name'' = Inr (JStr sch)"
  "py_getitem (sample_spell n lvl sch ritual) ''ritual'' = Inr (JStr ritual)"
  by (simp_all add: sample_spell_def)

theorem subhead_by_level_witness:
  "get_spell_info fireball = Inr fireball_info \<and>
   subhead fireball_info = ''3rd-level evocation'' \<and>
   spell_subhead fireball = Inr ''3rd-level evocation'' \<and>
   spell_subhead (sample_spell ''Alarm'' (JNum 1) ''Abjuration'' ''yes'') =
     Inr ''1st-level abjuration (ritual)'' \<and>
   spell_subhead (sample_spell ''Fire Bolt'' (JNum 0) ''Evocation'' ''no'') =
     Inr ''Evocation cantrip''"
proof -
  have fb: "get_spell_info fireball = Inr fireball_info" by code_simp
  have lo: "lower ''Evocation'' = ''evocation''" "lower ''Abjuration'' = ''abjuration''"
    by code_simp+
  have a: "spell_subhead fireball = Inr ''3rd-level evocation''"
    using subhead_by_level
      [where spell = "sample_spell ''Fireball'' (JNum 3) ''Evocation'' ''no''" and N = 3
         and sch = "''Evocation''",
       OF sample_spell_fields(1) sample_spell_fields(2) sample_spell_fields(3)]
      sample_spell_fields(4) [of "''Fireball''" "JNum 3" "''Evocation''" "''no''"] lo
    by (simp add: fireball_def spell_named_def NUM_ABBREVS_def)
  have b: "spell_subhead (sample_spell ''Alarm'' (JNum 1) ''Abjuration'' ''yes'') =
      Inr ''1st-level abjuration (ritual)''"
    using subhead_by_level
      [where spell = "sample_spell ''Alarm'' (JNum 1) ''Abjuration'' ''yes''" and N = 1
         and sch = "''Abjuration''",
       OF sample_spell_fields(1) sample_spell_fields(2) sample_spell_fields(3)]
      sample_spell_fields(4) [of "''Alarm''" "JNum 1" "''Abjuration''" "''yes''"] lo
    by (simp add: NUM_ABBREVS_def)
  have c: "spell_subhead (sample_spell ''Fire Bolt'' (JNum 0) ''Evocation'' ''no'') =
      Inr ''Evocation cantrip''"
    using subhead_by_level
      [where spell = "sample_spell ''Fire Bolt'' (JNum 0) ''Evocation'' ''no''" and N = 0
         and sch = "''Evocation''",
       OF sample_spell_fields(1) sample_spell_fields(2) sample_spell_fields(3)]
    by simp
  have d: "subhead fireball_info = ''3rd-level evocation''" by (simp add: fireball_info_def)
  from a b c d fb show ?thesis by simp
qed

text \<open>
  The claim C6 speaks of every level \<open>N \<ge> 1\<close>. The table of ordinals ends at \<^verbatim>\<open>9th\<close>:
  at level 10 the subscript \<^verbatim>\<open>NUM_ABBREVS[9]\<close> raises \<^verbatim>\<open>IndexError\<close> and no subhead is
  built.
\<close>

theorem subhead_level_ten_counterexample:
  "py_getitem (sample_spell ''Wish'' (JNum 10) ''Conjuration'' ''no'') ''level'' = Inr (JNum 10) \<and>
   spell_subhead (sample_spell ''Wish'' (JNum 10) ''Conjuration'' ''no'') = Inl IndexError \<and>
   get_spell_info (sample_spell ''Wish'' (JNum 10) ''Conjuration'' ''no'') = Inl IndexError"
  by code_simp


section \<open>Choosing among the matches\<close>

lemma strs_of_Cons:
  "strs_of (j # js) = Inr names \<longleftrightarrow>
     (\<exists>s rest. j = JStr s \<and> strs_of js = Inr rest \<and> names = s # rest)"
  by (cases j) (auto simp: bindE_def split: sum.splits)

lemma map_lower_strs:
  "strs_of js = Inr names \<Longrightarrow> map_lower js = Inr (map lower names)"
proof (induction js arbitrary: names)
  case Nil
  then show ?case by simp
next
  case (Cons j js)
  then obtain s rest where "j = JStr s" "strs_of js = Inr rest" "names = s # rest"
    by (auto simp: strs_of_Cons)
  with Cons.IH [of rest] show ?case by (simp add: bindE_def)
qed

lemma strs_of_length: "strs_of js = Inr names \<Longrightarrow> length names = length js"
  by (induction js arbitrary: names) (auto simp: strs_of_Cons)

lemma first_exact_match:
  assumes "strs_of (map name matches) = Inr names"
    and "lower request \<in> set (map lower names)"
  shows "\<exists>i. list_index (map lower names) (lower request) = Inr i \<and> i < length matches \<and>
     List.find (\<lambda>m. py_lower (name m) = Inr (lower request)) matches = Some (matches ! i)"
  using assms
proof (induction matches arbitrary: names)
  case Nil
  then show ?case by simp
next
  case (Cons m ms)
  from Cons.prems(1) obtain s rest where
    s: "name m = JStr s" and rest: "strs_of (map name ms) = Inr rest" and names: "names = s # rest"
    by (auto simp: strs_of_Cons)
  show ?case
  proof (cases "lower s = lower request")
    case True
    then show ?thesis using s names by (intro exI [of _ 0]) simp
  next
    case False
    with Cons.prems(2) names have "lower request \<in> set (map lower rest)" by auto
    from Cons.IH [OF rest this] obtain i where
      "list_index (map lower rest) (lower request) = Inr i" "i < length ms"
      "List.find (\<lambda>m. py_lower (name m) = Inr (lower request)) ms = Some (ms ! i)"
      by blast
    then show ?thesis using False s names
      by (intro exI [of _ "Suc i"]) (simp add: bindE_def)
  qed
qed

lemma py_index_nat: "i < length xs \<Longrightarrow> py_index xs (int i) = Inr (xs ! i)"
  by (simp add: py_index_def)

lemma disambiguate_exact:
  assumes names: "strs_of (map name matches) = Inr names"
    and exact: "lower request \<in> set (map lower names)"
  shows "\<exists>m. disambiguate request matches = Inr (Resolved m) \<and> m \<in> set matches \<and>
     List.find (\<lambda>m. py_lower (name m) = Inr (lower request)) matches = Some m"
proof -
  from first_exact_match [OF names exact] obtain i where
    idx: "list_index (map lower names) (lower request) = Inr i" and i: "i < length matches"
    and found: "List.find (\<lambda>m. py_lower (name m) = Inr (lower request)) matches =
      Some (matches ! i)"
    by blast
  have ne: "length matches \<noteq> 0" using i by auto
  have "disambiguate request matches = Inr (Resolved (matches ! i))"
    using ne exact idx py_index_nat [OF i] map_lower_strs [OF names]
    by (simp add: disambiguate_def bindE_def Let_def)
  with found i show ?thesis by auto
qed

text \<open>
  C4. The matched names being the strings \<open>names\<close>, in order: when the lower-cased
  request equals the lower-cased name of some candidate, the outcome is \<open>Resolved\<close>
  and the record selected is the first candidate, in order, whose lower-cased name
  equals the lower-cased request, whatever stands before it and whichever other
  candidates contain the request.
\<close>

theorem exact_name_match_resolved:
  assumes names: "strs_of (map name matches) = Inr names"
    and exact: "lower request \<in> set (map lower names)"
  shows "\<exists>m. disambiguate request matches = Inr (Resolved m) \<and>
     List.find (\<lambda>m. py_lower (name m) = Inr (lower request)) matches = Some m"
  using disambiguate_exact [OF names exact] by blast

text \<open>
  C8. The matched names being the strings \<open>names\<close>, in order, one evaluation ends
  in exactly one of three outcomes and never in an exception: no match gives
  \<open>NotFound\<close>; more than one match none of which has the request as its lower-cased
  name gives \<open>Ambiguous\<close> with the candidate names in order; every other case gives
  \<open>Resolved\<close> with one of the matches.
\<close>

theorem disambiguate_three_outcomes:
  assumes names: "strs_of (map name matches) = Inr names"
  shows "(matches = [] \<longrightarrow> disambiguate request matches = Inr NotFound) \<and>
     (1 < length matches \<and> lower request \<notin> set (map lower names) \<longrightarrow>
        disambiguate request matches = Inr (Ambiguous names)) \<and>
     (matches \<noteq> [] \<and> \<not> (1 < length matches \<and> lower request \<notin> set (map lower names)) \<longrightarrow>
        (\<exists>m \<in> set matches. disambiguate request matches = Inr (Resolved m)))"
proof (intro conjI impI)
  assume "matches = []"
  then show "disambiguate request matches = Inr NotFound"
    by (simp add: disambiguate_def)
next
  assume amb: "1 < length matches \<and> lower request \<notin> set (map lower names)"
  then have "matches \<noteq> []" by auto
  with amb show "disambiguate request matches = Inr (Ambiguous names)"
    using names map_lower_strs [OF names]
    by (simp add: disambiguate_def bindE_def Let_def)
next
  assume res: "matches \<noteq> [] \<and>
    \<not> (1 < length matches \<and> lower request \<notin> set (map lower names))"
  show "\<exists>m \<in> set matches. disambiguate request matches = Inr (Resolved m)"
  proof (cases "lower request \<in> set (map lower names)")
    case True
    from disambiguate_exact [OF names True] show ?thesis by blast
  next
    case False
    with res have one: "length matches = 1" by (cases matches) auto
    then have "py_index matches 0 = Inr (matches ! 0)" by (simp add: py_index_def)
    then have "disambiguate request matches = Inr (Resolved (matches ! 0))"
      using one False map_lower_strs [OF names]
      by (simp add: disambiguate_def bindE_def Let_def)
    moreover have "matches ! 0 \<in> set matches" using one by (cases matches) auto
    ultimately show ?thesis by blast
  qed
qed

lemma lower_mass_heal:
  "lower ''mass heal'' = ''mass heal''" "lower ''Mass Heal'' = ''mass heal''"
  "lower ''Mass Healing Word'' = ''mass healing word''"
  "lower ''heal'' = ''heal''" "lower ''Fireball'' = ''fireball''"
  by code_simp+

lemma names_of_infos:
  "strs_of (map name [info_named a, info_named b]) = Inr [a, b]"
  "strs_of (map name [info_named a]) = Inr [a]"
  "strs_of (map name ([] :: SpellInfo list)) = Inr []"
  by (simp_all add: info_named_def bindE_def)

theorem exact_name_match_resolved_witness:
  "disambiguate ''mass heal'' [info_named ''Mass Healing Word'', info_named ''Mass Heal''] =
     Inr (Resolved (info_named ''Mass Heal'')) \<and>
   disambiguate ''mass heal'' [info_named ''Mass Heal'', info_named ''Mass Healing Word''] =
     Inr (Resolved (info_named ''Mass Heal''))"
proof -
  have in1: "lower ''mass heal'' \<in> set (map lower [''Mass Healing Word'', ''Mass Heal''])"
    and in2: "lower ''mass heal'' \<in> set (map lower [''Mass Heal'', ''Mass Healing Word''])"
    by (simp_all add: lower_mass_heal)
  have pl: "py_lower (name (info_named n)) = Inr (lower n)" for n
    by (simp add: info_named_def)
  have a: "disambiguate ''mass heal'' [info_named ''Mass Healing Word'', info_named ''Mass Heal''] =
     Inr (Resolved (info_named ''Mass Heal''))"
    using exact_name_match_resolved
      [OF names_of_infos(1) [of "''Mass Healing Word''" "''Mass Heal''"] in1]
    by (auto simp: pl lower_mass_heal)
  have b: "disambiguate ''mass heal'' [info_named ''Mass Heal'', info_named ''Mass Healing Word''] =
     Inr (Resolved (info_named ''Mass Heal''))"
    using exact_name_match_resolved
      [OF names_of_infos(1) [of "''Mass Heal''" "''Mass Healing Word''"] in2]
    by (auto simp: pl lower_mass_heal)
  from a b show ?thesis by simp
qed

theorem disambiguate_three_outcomes_witness:
  "disambiguate ''heal'' [] = Inr NotFound \<and>
   disambiguate ''heal'' [info_named ''Mass Heal'', info_named ''Mass Healing Word''] =
     Inr (Ambiguous [''Mass Heal'', ''Mass Healing Word'']) \<and>
   disambiguate ''heal'' [info_named ''Mass Heal''] = Inr (Resolved (info_named ''Mass Heal''))"
proof -
  have a: "disambiguate ''heal'' [] = Inr NotFound"
    using disambiguate_three_outcomes [where request = "''heal''", OF names_of_infos(3)]
    by simp
  have b: "disambiguate ''heal'' [info_named ''Mass Heal'', info_named ''Mass Healing Word''] =
     Inr (Ambiguous [''Mass Heal'', ''Mass Healing Word''])"
    using disambiguate_three_outcomes
      [where request = "''heal''",
       OF names_of_infos(1) [of "''Mass Heal''" "''Mass Healing Word''"]]
    by (simp add: lower_mass_heal)
  have c: "disambiguate ''heal'' [info_named ''Mass Heal''] =
     Inr (Resolved (info_named ''Mass Heal''))"
    using disambiguate_three_outcomes
      [where request = "''heal''", OF names_of_infos(2) [of "''Mass Heal''"]]
    by simp
  from a b c show ?thesis by simp
qed


section \<open>Records that are not spells\<close>

lemma get_spell_info_reads:
  assumes "get_spell_info spell = Inr info" and "k \<in> set required_fields"
  shows "\<exists>v. py_getitem spell k = Inr v"
proof -
  from assms(1) obtain sh co pg where
    n: "\<exists>v. py_getitem spell ''name'' = Inr v"
    and sh: "spell_subhead spell = Inr sh"
    and ct: "\<exists>v. py_getitem spell ''casting_time'' = Inr v"
    and cr: "\<exists>v. py_getitem spell ''range'' = Inr v"
    and co: "spell_components spell = Inr co"
    and du: "\<exists>v. py_getitem spell ''duration'' = Inr v"
    and de: "\<exists>v. py_getitem spell ''desc'' = Inr v"
    and pg: "spell_page spell = Inr pg"
    by (auto simp: get_spell_info_def bindE_def split: sum.splits)
  from sh have lv: "\<exists>v. py_getitem spell ''level'' = Inr v"
    by (auto simp: spell_subhead_def bindE_def split: sum.splits)
  from sh have sc: "\<exists>v. py_getitem spell ''school'' = Inr v"
    by (auto simp: spell_subhead_def bindE_def split: sum.splits if_splits)
  from co have cm: "\<exists>v. py_getitem spell ''components'' = Inr v"
    by (auto simp: spell_components_def bindE_def split: sum.splits)
  from pg have pa: "\<exists>v. py_getitem spell ''page'' = Inr v"
    by (auto simp: spell_page_def bindE_def split: sum.splits)
  from assms(2) n lv sc ct cr cm du de pa show ?thesis
    by (auto simp: required_fields_def)
qed

lemma non_spell_raises: "non_spell item \<Longrightarrow> \<exists>e. get_spell_info item = Inl e"
proof -
  assume "non_spell item"
  then obtain k where k: "k \<in> set required_fields" and l: "lacks item k"
    by (auto simp: non_spell_def list_ex_iff)
  show ?thesis
  proof (cases "get_spell_info item")
    case (Inl e)
    then show ?thesis by blast
  next
    case (Inr info)
    from get_spell_info_reads [OF Inr k] l show ?thesis
      by (auto simp: lacks_def)
  qed
qed

lemma search_loop_raises:
  assumes "list_all non_spell target" and "list_ex (matches_item attr request) target"
  shows "\<exists>e. search_loop attr request trunc target acc = Inl e"
  using assms
proof (induction target arbitrary: acc)
  case Nil
  then show ?case by simp
next
  case (Cons item rest)
  show ?case
  proof (cases "py_getitem item attr")
    case (Inl e)
    then show ?thesis by simp
  next
    case (Inr v)
    show ?thesis
    proof (cases "str_in request (lower (collapse v))")
      case True
      from Cons.prems(1) non_spell_raises [of item] obtain e where
        "get_spell_info item = Inl e" by auto
      with Inr True show ?thesis by simp
    next
      case False
      with Inr have "\<not> matches_item attr request item" by (simp add: matches_item_def)
      with Cons.prems have "list_all non_spell rest" "list_ex (matches_item attr request) rest"
        by auto
      from Cons.IH [OF this, of acc] Inr False show ?thesis by simp
    qed
  qed
qed

lemma early_missing_raises:
  assumes "early_missing item"
  shows "\<exists>e. get_spell_info item = Inl e \<and> lookup_error e"
proof -
  from assms obtain kvs where item: "item = JDict kvs" and
    miss: "map_of kvs ''name'' = None \<or>
      (case map_of kvs ''level'' of None \<Rightarrow> True
       | Some lv \<Rightarrow> py_int lv \<noteq> None \<and> map_of kvs ''school'' = None)"
    by (auto simp: early_missing_def split: json.splits)
  show ?thesis
  proof (cases "map_of kvs ''name''")
    case None
    then show ?thesis using item
      by (simp add: get_spell_info_def bindE_def lookup_error_def)
  next
    case (Some nm)
    show ?thesis
    proof (cases "map_of kvs ''level''")
      case None
      then have "spell_subhead item = Inl KeyError"
        using item by (simp add: spell_subhead_def bindE_def)
      then show ?thesis using item Some
        by (simp add: get_spell_info_def bindE_def lookup_error_def)
    next
      case lv: (Some lv)
      with miss Some obtain n where n: "py_int lv = Some n" and
        school: "map_of kvs ''school'' = None" by auto
      have "\<exists>e. spell_subhead item = Inl e \<and> lookup_error e"
        using item lv n school
        by (auto simp: spell_subhead_def bindE_def py_sub_def py_index_def lookup_error_def)
      then show ?thesis using item Some
        by (auto simp: get_spell_info_def bindE_def)
    qed
  qed
qed

lemma early_missing_getitem:
  "early_missing item \<Longrightarrow> py_getitem item k = Inl e \<Longrightarrow> lookup_error e"
  by (auto simp: early_missing_def lookup_error_def split: json.splits option.splits)

lemma search_loop_lookup_error:
  assumes "list_all early_missing target" and "list_ex (matches_item attr request) target"
  shows "\<exists>e. search_loop attr request trunc target acc = Inl e \<and> lookup_error e"
  using assms
proof (induction target arbitrary: acc)
  case Nil
  then show ?case by simp
next
  case (Cons item rest)
  from Cons.prems(1) have em: "early_missing item" by simp
  show ?case
  proof (cases "py_getitem item attr")
    case (Inl e)
    with early_missing_getitem [OF em Inl] show ?thesis by simp
  next
    case (Inr v)
    show ?thesis
    proof (cases "str_in request (lower (collapse v))")
      case True
      from early_missing_raises [OF em] obtain e where
        "get_spell_info item = Inl e" "lookup_error e" by auto
      with Inr True show ?thesis by simp
    next
      case False
      with Inr have "\<not> matches_item attr request item" by (simp add: matches_item_def)
      with Cons.prems have "list_all early_missing rest"
        "list_ex (matches_item attr request) rest"
        by auto
      from Cons.IH [OF this, of acc] Inr False show ?thesis by simp
    qed
  qed
qed

text \<open>
  C9, with the exception left open where the record decides it. \<^verbatim>\<open>search\<close> formats
  every match with \<^verbatim>\<open>get_spell_info\<close>, whatever the resource. On a loaded table whose
  first record has the attribute and in which some record matches: when every record
  lacks one of the fields the formatter always reads, the search raises and returns
  no result; when every record is a dict without \<^verbatim>\<open>name\<close>, or without \<^verbatim>\<open>level\<close>, or
  with a numeric \<^verbatim>\<open>level\<close> and without \<^verbatim>\<open>school\<close>, what it raises is a lookup
  exception.
\<close>

theorem search_raises_on_non_spell_records:
  assumes loaded: "raw resource = Some (first # rest)"
    and probe: "py_in attr first = Inr True"
    and found: "list_ex (matches_item attr request) (first # rest)"
  shows "(list_all non_spell (first # rest) \<longrightarrow>
            (\<exists>e. search raw resource attr request trunc = Inl e)) \<and>
         (list_all early_missing (first # rest) \<longrightarrow>
            (\<exists>e. search raw resource attr request trunc = Inl e \<and> lookup_error e))"
proof -
  have run: "search raw resource attr request trunc =
      search_loop attr request trunc (first # rest) []"
    by (rule search_runs_scan [of raw resource, OF loaded probe])
  show ?thesis
    unfolding run
    using search_loop_raises [OF _ found] search_loop_lookup_error [OF _ found]
    by blast
qed

lemma conditions_loaded: "conditions_raw ''conditions'' = Some (blinded # [])"
  by (simp add: conditions_raw_def)

lemma blinded_facts:
  "py_in ''name'' blinded = Inr True"
  "list_ex (matches_item ''name'' ''blinded'') [blinded]"
  "list_all non_spell [blinded]"
  "list_all early_missing [blinded]"
  by code_simp+

theorem search_raises_on_non_spell_records_witness:
  "search conditions_raw ''conditions'' ''name'' ''blinded'' 5 = Inl KeyError \<and>
   lookup_error KeyError"
proof -
  from search_raises_on_non_spell_records
    [where raw = conditions_raw and resource = "''conditions''" and trunc = 5,
     OF conditions_loaded blinded_facts(1) blinded_facts(2)]
    blinded_facts(4)
  obtain e where e: "search conditions_raw ''conditions'' ''name'' ''blinded'' 5 = Inl e"
    "lookup_error e"
    by blast
  have "search conditions_raw ''conditions'' ''name'' ''blinded'' 5 = Inl KeyError"
    by code_simp
  with e(1) have "e = KeyError" by simp
  from e show ?thesis unfolding \<open>e = KeyError\<close> by (rule conjI)
qed

text \<open>
  The claim C9 has a lookup exception for every record that lacks a spell field. A
  record that lacks \<^verbatim>\<open>school\<close>, \<^verbatim>\<open>components\<close>, \<^verbatim>\<open>desc\<close>, \<^verbatim>\<open>duration\<close> and \<^verbatim>\<open>page\<close> but
  has a \<^verbatim>\<open>level\<close> that is no number fails earlier, in \<^verbatim>\<open>spell['level'] - 1\<close>, with
  \<^verbatim>\<open>TypeError\<close>.
\<close>

theorem search_type_error_counterexample:
  "list_all non_spell [odd_level] \<and>
   list_ex (matches_item ''name'' ''blinded'') [odd_level] \<and>
   search odd_raw ''conditions'' ''name'' ''blinded'' 5 = Inl TypeError \<and>
   \<not> lookup_error TypeError"
  by code_simp

section \<open>Collapsing\<close>

lemma collapse_fold:
  "foldl (\<lambda>result subitem. result @ para_sep @ collapse subitem) acc items =
   acc @ concat (map (\<lambda>subitem. para_sep @ collapse subitem) items)"
  by (induction items arbitrary: acc) simp_all

lemma render_append: "render (ps @ qs) = render ps @ render qs"
  by (induction ps rule: render.induct) simp_all

lemma leaf_texts_append: "leaf_texts (ps @ qs) = leaf_texts ps @ leaf_texts qs"
  by (induction ps rule: leaf_texts.induct) simp_all

lemma separated_before_sep:
  "qs = [] \<or> hd qs = Sep \<Longrightarrow> separated (p # qs) = separated qs"
  by (cases p; cases qs) auto

lemma separated_append:
  "separated ps \<Longrightarrow> separated qs \<Longrightarrow> qs = [] \<or> hd qs = Sep \<Longrightarrow> separated (ps @ qs)"
proof (induction ps)
  case Nil
  then show ?case by simp
next
  case (Cons p ps)
  show ?case
  proof (cases ps)
    case Nil
    with Cons.prems show ?thesis by (simp add: separated_before_sep)
  next
    case (Cons p' ps')
    with Cons.prems Cons.IH show ?thesis
      by (cases p; cases p') auto
  qed
qed

lemma collapse_items:
  assumes "\<And>x. x \<in> set items \<Longrightarrow>
     \<exists>ps. collapse x = render ps \<and> leaf_texts ps = leaves x \<and> separated ps"
  shows "\<exists>ps. concat (map (\<lambda>subitem. para_sep @ collapse subitem) items) = render ps \<and>
     leaf_texts ps = concat (map leaves items) \<and> separated ps \<and> (ps = [] \<or> hd ps = Sep)"
  using assms
proof (induction items)
  case Nil
  show ?case by (intro exI [of _ "[]"]) simp
next
  case (Cons x xs)
  from Cons.prems [of x] obtain px where
    px: "collapse x = render px" "leaf_texts px = leaves x" "separated px" by auto
  from Cons.IH Cons.prems obtain ps where
    ps: "concat (map (\<lambda>subitem. para_sep @ collapse subitem) xs) = render ps"
      "leaf_texts ps = concat (map leaves xs)" "separated ps" "ps = [] \<or> hd ps = Sep"
    by auto
  have "separated (px @ ps)" using px(3) ps(3,4) by (rule separated_append)
  then have "separated (Sep # px @ ps)" by simp
  then show ?case using px ps
    by (intro exI [of _ "Sep # px @ ps"]) (simp add: render_append leaf_texts_append)
qed

lemma collapse_laid_out:
  "\<exists>ps. collapse j = render ps \<and> leaf_texts ps = leaves j \<and> separated ps"
proof (induction j)
  case (JStr s)
  show ?case by (intro exI [of _ "[Leaf s]"]) simp
next
  case (JNum n)
  show ?case by (intro exI [of _ "[]"]) simp
next
  case (JBool b)
  show ?case by (intro exI [of _ "[]"]) simp
next
  case JNull
  show ?case by (intro exI [of _ "[]"]) simp
next
  case (JList items)
  from collapse_items [of items] JList obtain ps where
    "concat (map (\<lambda>subitem. para_sep @ collapse subitem) items) = render ps"
    "leaf_texts ps = concat (map leaves items)" "separated ps"
    by blast
  then show ?case by (intro exI [of _ ps]) (simp add: collapse_fold)
next
  case (JDict kvs)
  have "\<And>x. x \<in> set (map snd kvs) \<Longrightarrow>
     \<exists>ps. collapse x = render ps \<and> leaf_texts ps = leaves x \<and> separated ps"
    using JDict by (auto simp: snds.simps)
  from collapse_items [of "map snd kvs", OF this] obtain ps where
    "concat (map (\<lambda>subitem. para_sep @ collapse subitem) (map snd kvs)) = render ps"
    "leaf_texts ps = concat (map leaves (map snd kvs))" "separated ps"
    by blast
  then show ?case by (intro exI [of _ ps]) (simp add: collapse_fold comp_def)
qed

lemma render_no_leaf:
  "leaf_texts ps = [] \<Longrightarrow> \<exists>n. render ps = concat (replicate n para_sep)"
proof (induction ps rule: render.induct)
  case 1
  show ?case by (intro exI [of _ 0]) simp
next
  case (2 ps)
  then obtain n where "render ps = concat (replicate n para_sep)" by auto
  then show ?case by (intro exI [of _ "Suc n"]) simp
next
  case (3 s ps)
  then show ?case by simp
qed

text \<open>
  C7, with the separators where the code puts them. \<^verbatim>\<open>collapse\<close> writes the separator
  in front of every element of a list and every value of a mapping. The result is
  the string leaves of the value, in traversal order, laid out with separators so
  that no two leaves touch; separators may also stand before the first leaf and
  after the last. A value without string leaves gives separators only, as many as
  it has nested elements.
\<close>

theorem collapse_leaves_in_order:
  "(\<exists>ps. collapse j = render ps \<and> leaf_texts ps = leaves j \<and> separated ps) \<and>
   (leaves j = [] \<longrightarrow> (\<exists>n. collapse j = concat (replicate n para_sep)))"
proof (intro conjI impI)
  show "\<exists>ps. collapse j = render ps \<and> leaf_texts ps = leaves j \<and> separated ps"
    by (rule collapse_laid_out)
next
  assume none: "leaves j = []"
  from collapse_laid_out [of j] obtain ps where
    "collapse j = render ps" "leaf_texts ps = leaves j" by blast
  with none render_no_leaf [of ps] show "\<exists>n. collapse j = concat (replicate n para_sep)"
    by simp
qed

theorem collapse_leaves_in_order_witness:
  "(\<exists>ps. collapse (JDict [(''a'', JStr ''x''), (''b'', JList [JStr ''y'', JStr ''z''])]) =
          render ps \<and> leaf_texts ps = [''x'', ''y'', ''z''] \<and> separated ps) \<and>
   (\<exists>n. collapse (JList [JNum 1, JList []]) = concat (replicate n para_sep))"
proof -
  have l1: "leaves (JDict [(''a'', JStr ''x''), (''b'', JList [JStr ''y'', JStr ''z''])]) =
      [''x'', ''y'', ''z'']" by simp
  have l2: "leaves (JList [JNum 1, JList []]) = []" by simp
  from collapse_leaves_in_order
    [of "JDict [(''a'', JStr ''x''), (''b'', JList [JStr ''y'', JStr ''z''])]"]
  have a: "\<exists>ps. collapse (JDict [(''a'', JStr ''x''), (''b'', JList [JStr ''y'', JStr ''z''])]) =
          render ps \<and> leaf_texts ps = [''x'', ''y'', ''z''] \<and> separated ps"
    unfolding l1 by (rule conjunct1)
  from collapse_leaves_in_order [of "JList [JNum 1, JList []]"] l2
  have b: "\<exists>n. collapse (JList [JNum 1, JList []]) = concat (replicate n para_sep)"
    by blast
  from a b show ?thesis by (rule conjI)
qed

text \<open>
  The claim C7 has the empty string for every value without strings. The list
  \<^verbatim>\<open>[1]\<close> has none and collapses to one separator.
\<close>

theorem collapse_no_strings_counterexample:
  "leaves (JList [JNum 1]) = [] \<and> collapse (JList [JNum 1]) = para_sep \<and>
   collapse (JList [JNum 1]) \<noteq> []"
  by (simp add: para_sep_def)

lemma collapse_example:
  "collapse (JDict [(''a'', JStr ''x''), (''b'', JList [JStr ''y'', JStr ''z''])]) =
     para_sep @ ''x'' @ para_sep @ para_sep @ ''y'' @ para_sep @ ''z'' \<and>
   leaves (JDict [(''a'', JStr ''x''), (''b'', JList [JStr ''y'', JStr ''z''])]) =
     [''x'', ''y'', ''z'']"
  by simp

lemma collapse_scalars_empty:
  "collapse (JNum n) = []" "collapse (JBool b) = []" "collapse JNull = []"
  "collapse (JList []) = []" "collapse (JDict []) = []"
  by simp_all



end
